theory Spec2Isabelle
  imports Main "HOL-Library.AList"
begin

section \<open>Zinops: the pattern compiler of \<^verbatim>\<open>rearrange\<close>\<close>

text \<open>
  A shallow embedding of \<^verbatim>\<open>src/zinops.py\<close>. Pattern strings are ASCII strings
  (\<^typ>\<open>string\<close>), axis sizes and axis-length hints are natural numbers (numpy
  dimensions are non-negative and the hints of the call contract are sizes), and
  \<^verbatim>\<open>np.prod\<close> is the exact product (no \<^verbatim>\<open>int64\<close> overflow). Every
  \<^verbatim>\<open>raise\<close> of the module and every exception of a Python or numpy operation it
  calls is a value of type \<open>exn\<close>.
\<close>

subsection \<open>Exceptions\<close>

text \<open>
  The module has a single exception class, \<^verbatim>\<open>Error\<close>; the constructor of
  \<open>message\<close> identifies the \<^verbatim>\<open>raise\<close> statement (the message text itself is
  not modelled, only the axis name or size it prints).
\<close>

datatype message =
    SeparatorMissing          \<comment> \<open>line 14: Pattern must contain '->' separator\<close>
  | MustSpecifySplit string   \<comment> \<open>line 82: Must specify at least one dimension for split\<close>
  | CannotSplit nat           \<comment> \<open>line 85: Cannot split <size> with sizes ...\<close>
  | OneUnknownPerSplit        \<comment> \<open>line 89: Can only infer one unknown dimension per split\<close>
  | TooManyExplicitAxes       \<comment> \<open>line 122: Too many explicit axes for tensor rank\<close>
  | TransposeRankMismatch     \<comment> \<open>line 125: Transpose: Number of axes doesn't match\<close>
  | SplitRankMismatch         \<comment> \<open>line 128: Split: Number of base axes doesn't match\<close>
  | MergeUnknownComponents    \<comment> \<open>line 142: Merge contains unknown components\<close>
  | UnknownAxis string        \<comment> \<open>line 148: Unknown axis <name> in output\<close>

datatype origin = Unpack | InReshape | InTranspose | InBroadcast

datatype exn =
    Error message        \<comment> \<open>the module's own \<^verbatim>\<open>Error\<close>\<close>
  | ValueError origin    \<comment> \<open>tuple unpacking of the split pattern, or a numpy primitive\<close>
  | IndexError           \<comment> \<open>a list index out of range\<close>
  | KeyError string      \<comment> \<open>a missing dictionary key\<close>

subsection \<open>Python string operations\<close>

text \<open>\<^verbatim>\<open>str.isspace\<close> on one ASCII character: TAB, LF, VT, FF, CR, FS, GS, RS, US, SPACE.\<close>

definition isspace :: "char \<Rightarrow> bool" where
  "isspace c = (let n = (of_char c :: nat) in (9 \<le> n \<and> n \<le> 13) \<or> (28 \<le> n \<and> n \<le> 32))"

text \<open>\<^verbatim>\<open>s.strip()\<close> and \<^verbatim>\<open>s.strip(chars)\<close>.\<close>

definition strip :: "string \<Rightarrow> string" where
  "strip s = rev (dropWhile isspace (rev (dropWhile isspace s)))"

definition strip_chars :: "string \<Rightarrow> string \<Rightarrow> string" where
  "strip_chars chars s =
     rev (dropWhile (\<lambda>c. c \<in> set chars) (rev (dropWhile (\<lambda>c. c \<in> set chars) s)))"

text \<open>\<^verbatim>\<open>s.split()\<close>: the maximal runs of non-whitespace characters.\<close>

fun str_split_ws :: "string \<Rightarrow> string \<Rightarrow> string list" where
  "str_split_ws [] cur = (if cur = [] then [] else [cur])"
| "str_split_ws (c # cs) cur =
     (if isspace c then (if cur = [] then str_split_ws cs [] else cur # str_split_ws cs [])
      else str_split_ws cs (cur @ [c]))"

text \<open>\<^verbatim>\<open>'->' in s\<close> and \<^verbatim>\<open>s.split('->')\<close>.\<close>

fun contains_arrow :: "string \<Rightarrow> bool" where
  "contains_arrow (c # d # cs) = ((c = CHR ''-'' \<and> d = CHR ''>'') \<or> contains_arrow (d # cs))"
| "contains_arrow _ = False"

fun str_split_arrow :: "string \<Rightarrow> string list" where
  "str_split_arrow (c # d # cs) =
     (if c = CHR ''-'' \<and> d = CHR ''>'' then [] # str_split_arrow cs
      else (case str_split_arrow (d # cs) of
              [] \<Rightarrow> [[c]]
            | p # ps \<Rightarrow> (c # p) # ps))"
| "str_split_arrow s = [s]"

text \<open>\<^verbatim>\<open>str(i)\<close> for a non-negative integer, as used in \<^verbatim>\<open>f'_ellipsis_{i}'\<close>.\<close>

fun str_of_nat :: "nat \<Rightarrow> string" where
  "str_of_nat n =
     (if n < 10 then [''0123456789'' ! n]
      else str_of_nat (n div 10) @ [''0123456789'' ! (n mod 10)])"

definition ellipsis_name :: "nat \<Rightarrow> string" where
  "ellipsis_name i = ''_ellipsis_'' @ str_of_nat i"

definition startswith :: "string \<Rightarrow> string \<Rightarrow> bool" where
  "startswith s p = (take (length p) s = p)"

subsection \<open>\<^verbatim>\<open>parser\<close> (lines 12-42)\<close>

text \<open>
  The nested function \<^verbatim>\<open>split\<close>: one pass over the stripped string with the state
  \<^verbatim>\<open>(result, current, paren_count)\<close>. The counter is a Python integer and may go
  below zero.
\<close>

fun split_loop :: "string \<Rightarrow> string list \<Rightarrow> string \<Rightarrow> int \<Rightarrow> string list" where
  "split_loop [] result current paren_count =
     (if current \<noteq> [] then result @ [current] else result)"
| "split_loop (c # cs) result current paren_count =
     (if c = CHR ''('' then split_loop cs result (current @ [c]) (paren_count + 1)
      else if c = CHR '')'' then split_loop cs result (current @ [c]) (paren_count - 1)
      else if isspace c \<and> paren_count = 0 then
        (if current \<noteq> [] then split_loop cs (result @ [current]) [] paren_count
         else split_loop cs result current paren_count)
      else split_loop cs result (current @ [c]) paren_count)"

definition split_units :: "string \<Rightarrow> string list" where
  "split_units s = split_loop (strip s) [] [] 0"

definition parser :: "string \<Rightarrow> exn + (string list \<times> string list)" where
  "parser pattern =
     (if \<not> contains_arrow pattern then Inl (Error SeparatorMissing)
      else (case str_split_arrow pattern of
              [inp, out] \<Rightarrow> Inr (split_units inp, split_units out)
            | _ \<Rightarrow> Inl (ValueError Unpack)))"

subsection \<open>\<^verbatim>\<open>parse_axis\<close> (lines 46-53)\<close>

definition parse_axis :: "string \<Rightarrow> string \<times> string list option" where
  "parse_axis axis =
     (if axis = ''...'' then (axis, None)
      else if CHR ''('' \<in> set axis \<and> CHR '')'' \<in> set axis then
        (let parts = str_split_ws (strip_chars ''()'' axis) [] in (concat parts, Some parts))
      else (axis, None))"

text \<open>
  The components as a list: \<^verbatim>\<open>if components:\<close> is false for \<^verbatim>\<open>None\<close> and for the empty
  list, that is when \<open>comps_of components = []\<close>.
\<close>

fun comps_of :: "string list option \<Rightarrow> string list" where
  "comps_of None = []"
| "comps_of (Some cs) = cs"

text \<open>The test \<^verbatim>\<open>'(' in ax and ')' in ax\<close> of lines 111 and 112.\<close>

definition has_parens :: "string \<Rightarrow> bool" where
  "has_parens ax = (CHR ''('' \<in> set ax \<and> CHR '')'' \<in> set ax)"

subsection \<open>Arrays and the three numpy primitives\<close>

text \<open>
  An array is its shape and its elements, read by multi-index. \<open>ravel\<close> and \<open>unravel\<close> are
  the row-major (C order) numbering of the multi-indices of a shape.
\<close>

record 'a tensor =
  shape :: "nat list"
  elem :: "nat list \<Rightarrow> 'a"

fun ravel :: "nat list \<Rightarrow> nat list \<Rightarrow> nat" where
  "ravel (s # ss) (i # is) = i * prod_list ss + ravel ss is"
| "ravel _ _ = 0"

fun unravel :: "nat list \<Rightarrow> nat \<Rightarrow> nat list" where
  "unravel [] n = []"
| "unravel (s # ss) n = (n div prod_list ss) # unravel ss (n mod prod_list ss)"

fun index_of :: "nat list \<Rightarrow> nat \<Rightarrow> nat" where
  "index_of [] a = 0"
| "index_of (x # xs) a = (if x = a then 0 else Suc (index_of xs a))"

text \<open>
  \<^verbatim>\<open>result.reshape(new_shape)\<close>: the element count must be kept; the elements keep their
  row-major order.
\<close>

definition np_reshape :: "'a tensor \<Rightarrow> nat list \<Rightarrow> exn + 'a tensor" where
  "np_reshape t new_shape =
     (if prod_list new_shape = prod_list (shape t)
      then Inr \<lparr>shape = new_shape, elem = (\<lambda>j. elem t (unravel (shape t) (ravel new_shape j)))\<rparr>
      else Inl (ValueError InReshape))"

text \<open>
  \<^verbatim>\<open>np.transpose(result, permutation)\<close>: the axes must be a permutation of
  \<^verbatim>\<open>range(ndim)\<close>; axis \<open>k\<close> of the result is axis \<open>permutation[k]\<close> of the argument.
\<close>

definition np_transpose :: "'a tensor \<Rightarrow> nat list \<Rightarrow> exn + 'a tensor" where
  "np_transpose t permutation =
     (if length permutation = length (shape t) \<and> distinct permutation
         \<and> list_all (\<lambda>a. a < length (shape t)) permutation
      then Inr \<lparr>shape = map (\<lambda>a. shape t ! a) permutation,
                elem = (\<lambda>j. elem t (map (\<lambda>a. j ! index_of permutation a) [0..<length (shape t)]))\<rparr>
      else Inl (ValueError InTranspose))"

text \<open>
  \<^verbatim>\<open>np.broadcast_to(result, target)\<close>: the shapes are aligned at their last axes; each
  axis of the argument keeps its size or has size 1 and is repeated.
\<close>

definition np_broadcast_to :: "'a tensor \<Rightarrow> nat list \<Rightarrow> exn + 'a tensor" where
  "np_broadcast_to t target =
     (let d = length target - length (shape t) in
      if length (shape t) \<le> length target
         \<and> list_all (\<lambda>(s, g). s = g \<or> s = 1) (zip (shape t) (drop d target))
      then Inr \<lparr>shape = target,
                elem = (\<lambda>j. elem t (map (\<lambda>(s, i). if s = 1 then 0 else i) (zip (shape t) (drop d j))))\<rparr>
      else Inl (ValueError InBroadcast))"

text \<open>Integer remainder and floor division by a numpy integer: a zero divisor gives 0.\<close>

definition np_mod :: "nat \<Rightarrow> nat \<Rightarrow> nat" where
  "np_mod a b = (if b = 0 then 0 else a mod b)"

definition np_floordiv :: "nat \<Rightarrow> nat \<Rightarrow> nat" where
  "np_floordiv a b = (if b = 0 then 0 else a div b)"

subsection \<open>\<^verbatim>\<open>validate_shapes\<close> (lines 57-101)\<close>

text \<open>
  A dictionary is an association list in insertion order: \<^verbatim>\<open>d[k] = v\<close> is
  \<^const>\<open>AList.update\<close>, \<^verbatim>\<open>k in d\<close> and \<^verbatim>\<open>d[k]\<close> read \<^const>\<open>map_of\<close>.
\<close>

type_synonym dict = "(string \<times> nat) list"

definition n_ellipsis :: "nat list \<Rightarrow> string list \<Rightarrow> int" where
  "n_ellipsis shp input_axes =
     int (length shp) - int (length (filter (\<lambda>ax. ax \<noteq> ''...'') input_axes))"

text \<open>Lines 71-73: the loop over \<^verbatim>\<open>range(n_ellipsis)\<close>.\<close>

fun ellipsis_loop :: "nat list \<Rightarrow> nat list \<Rightarrow> dict \<Rightarrow> nat \<Rightarrow> exn + (dict \<times> nat)" where
  "ellipsis_loop [] shp shape_dict shape_idx = Inr (shape_dict, shape_idx)"
| "ellipsis_loop (i # is) shp shape_dict shape_idx =
     (if shape_idx < length shp
      then ellipsis_loop is shp (AList.update (ellipsis_name i) (shp ! shape_idx) shape_dict)
             (Suc shape_idx)
      else Inl IndexError)"

text \<open>Line 80: the dictionary comprehension \<^verbatim>\<open>known_sizes\<close>.\<close>

definition known_sizes_of :: "string list \<Rightarrow> dict \<Rightarrow> dict" where
  "known_sizes_of components axes_length =
     foldl (\<lambda>ks c. case map_of axes_length c of Some v \<Rightarrow> AList.update c v ks | None \<Rightarrow> ks)
       [] components"

text \<open>Lines 79-91: the branch of a composite token.\<close>

definition resolve_split :: "string \<Rightarrow> string list \<Rightarrow> nat \<Rightarrow> dict \<Rightarrow> dict \<Rightarrow> exn + dict" where
  "resolve_split axis components current_size axes_length shape_dict =
     (let known_sizes = known_sizes_of components axes_length in
      if known_sizes = [] then Inl (Error (MustSpecifySplit axis))
      else
        let known_product = prod_list (map snd known_sizes) in
        if np_mod current_size known_product \<noteq> 0 then Inl (Error (CannotSplit current_size))
        else
          let remaining_size = np_floordiv current_size known_product;
              remaining_comps = filter (\<lambda>c. map_of known_sizes c = None) components in
          if length remaining_comps > 1 then Inl (Error OneUnknownPerSplit)
          else Inr (foldl (\<lambda>d comp. AList.update comp
                             (case map_of known_sizes comp of Some v \<Rightarrow> v | None \<Rightarrow> remaining_size) d)
                      shape_dict components))"

text \<open>Lines 66-94: the loop over the input tokens, with the state \<^verbatim>\<open>(shape_dict, shape_idx)\<close>.\<close>

fun walk_input :: "string list \<Rightarrow> nat list \<Rightarrow> int \<Rightarrow> dict \<Rightarrow> dict \<Rightarrow> nat \<Rightarrow> exn + dict" where
  "walk_input [] shp n axes_length shape_dict shape_idx = Inr shape_dict"
| "walk_input (axis # rest) shp n axes_length shape_dict shape_idx =
     (if axis = ''...'' then
        (case ellipsis_loop [0..<nat n] shp shape_dict shape_idx of
           Inl e \<Rightarrow> Inl e
         | Inr (shape_dict', shape_idx') \<Rightarrow> walk_input rest shp n axes_length shape_dict' shape_idx')
      else if shape_idx < length shp then
        (let current_size = shp ! shape_idx in
         if comps_of (snd (parse_axis axis)) \<noteq> [] then
           (case resolve_split axis (comps_of (snd (parse_axis axis))) current_size axes_length
                   shape_dict of
              Inl e \<Rightarrow> Inl e
            | Inr shape_dict' \<Rightarrow> walk_input rest shp n axes_length shape_dict' (Suc shape_idx))
         else walk_input rest shp n axes_length
                (AList.update (fst (parse_axis axis)) current_size shape_dict) (Suc shape_idx))
      else Inl IndexError)"

text \<open>Lines 97-99: hints whose name is not yet in the dictionary are added.\<close>

definition merge_hints :: "dict \<Rightarrow> dict \<Rightarrow> dict" where
  "merge_hints axes_length shape_dict =
     foldl (\<lambda>d (name, sz). if map_of d name = None then AList.update name sz d else d)
       shape_dict axes_length"

definition validate_shapes :: "'a tensor \<Rightarrow> string list \<Rightarrow> string list \<Rightarrow> dict \<Rightarrow> exn + dict" where
  "validate_shapes t input_axes output_axes axes_length =
     (case walk_input input_axes (shape t) (n_ellipsis (shape t) input_axes) axes_length [] 0 of
        Inl e \<Rightarrow> Inl e
      | Inr shape_dict \<Rightarrow> Inr (merge_hints axes_length shape_dict))"

subsection \<open>\<^verbatim>\<open>rearrange\<close>: validation and plan (lines 108-204)\<close>

text \<open>Lines 116-128: the rank checks.\<close>

definition rank_checks :: "bool \<Rightarrow> bool \<Rightarrow> bool \<Rightarrow> nat \<Rightarrow> nat \<Rightarrow> exn + unit" where
  "rank_checks has_split has_merge ellipsis_present n_base tensor_rank =
     (if \<not> has_split \<and> \<not> has_merge then
        (if ellipsis_present then
           (if int tensor_rank - int n_base < 0 then Inl (Error TooManyExplicitAxes) else Inr ())
         else if n_base \<noteq> tensor_rank then Inl (Error TransposeRankMismatch) else Inr ())
      else if has_split then
        (if n_base \<noteq> tensor_rank then Inl (Error SplitRankMismatch) else Inr ())
      else Inr ())"

text \<open>
  Lines 133-142: every component of an output composite must be a key of the shape
  dictionary that does not start with \<^verbatim>\<open>_ellipsis_\<close>.
\<close>

definition merge_check :: "string list \<Rightarrow> dict \<Rightarrow> exn + unit" where
  "merge_check output_axes shape_dict =
     (let output_comps = concat (map (\<lambda>ax. comps_of (snd (parse_axis ax))) output_axes) in
      if list_all (\<lambda>c. map_of shape_dict c \<noteq> None \<and> \<not> startswith c ''_ellipsis_'') output_comps
      then Inr () else Inl (Error MergeUnknownComponents))"

text \<open>Lines 145-148.\<close>

fun output_check :: "string list \<Rightarrow> dict \<Rightarrow> exn + unit" where
  "output_check [] shape_dict = Inr ()"
| "output_check (ax # rest) shape_dict =
     (if fst (parse_axis ax) \<noteq> ''...'' \<and> comps_of (snd (parse_axis ax)) = []
         \<and> map_of shape_dict (fst (parse_axis ax)) = None
      then Inl (Error (UnknownAxis (fst (parse_axis ax))))
      else output_check rest shape_dict)"

text \<open>\<^verbatim>\<open>d[k]\<close> and \<^verbatim>\<open>[d[k] for k in ks]\<close>.\<close>

definition getitem :: "dict \<Rightarrow> string \<Rightarrow> exn + nat" where
  "getitem d k = (case map_of d k of None \<Rightarrow> Inl (KeyError k) | Some v \<Rightarrow> Inr v)"

fun getitems :: "dict \<Rightarrow> string list \<Rightarrow> exn + nat list" where
  "getitems d [] = Inr []"
| "getitems d (k # ks) =
     (case getitem d k of
        Inl e \<Rightarrow> Inl e
      | Inr v \<Rightarrow> (case getitems d ks of Inl e \<Rightarrow> Inl e | Inr vs \<Rightarrow> Inr (v # vs)))"

text \<open>
  Lines 155-175: the reshape operations of the input composites and the position of every
  axis after the splits. \<^verbatim>\<open>n_ellipsis\<close> is not negative here: \<open>walk_input\<close> has raised
  \<^verbatim>\<open>IndexError\<close> otherwise (lemma \<open>walk_input_rank\<close>).
\<close>

type_synonym reshape_op = "nat \<times> nat list"

fun build_ops ::
  "string list \<Rightarrow> nat list \<Rightarrow> int \<Rightarrow> dict \<Rightarrow> reshape_op list \<Rightarrow> dict \<Rightarrow> nat
     \<Rightarrow> exn + (reshape_op list \<times> dict)" where
  "build_ops [] current_shape n shape_dict ops axis_map shape_idx = Inr (ops, axis_map)"
| "build_ops (axis # rest) current_shape n shape_dict ops axis_map shape_idx =
     (if axis = ''...'' then
        build_ops rest current_shape n shape_dict ops
          (foldl (\<lambda>m j. AList.update (ellipsis_name j) (shape_idx + j) m) axis_map [0..<nat n])
          (shape_idx + nat n)
      else if comps_of (snd (parse_axis axis)) \<noteq> [] then
        (case getitems shape_dict (comps_of (snd (parse_axis axis))) of
           Inl e \<Rightarrow> Inl e
         | Inr split_shape \<Rightarrow>
             build_ops rest current_shape n shape_dict (ops @ [(shape_idx, split_shape)])
               (foldl (\<lambda>m (j, comp). AList.update comp (shape_idx + j) m) axis_map
                  (enumerate 0 (comps_of (snd (parse_axis axis)))))
               (shape_idx + length (comps_of (snd (parse_axis axis)))))
      else if fst (parse_axis axis) = ''1'' \<and> \<not> shape_idx < length current_shape then Inl IndexError
      else build_ops rest current_shape n shape_dict ops
             (AList.update (fst (parse_axis axis)) shape_idx axis_map) (Suc shape_idx))"

text \<open>
  Line 199: the list comprehension over \<^verbatim>\<open>enumerate(input_axes)\<close>; \<^verbatim>\<open>current_shape[i]\<close>
  is read for every token \<^verbatim>\<open>'1'\<close>.
\<close>

fun singleton_positions :: "string list \<Rightarrow> nat \<Rightarrow> nat list \<Rightarrow> exn + nat list" where
  "singleton_positions [] i current_shape = Inr []"
| "singleton_positions (ax # rest) i current_shape =
     (if ax = ''1'' then
        (if i < length current_shape then
           (case singleton_positions rest (Suc i) current_shape of
              Inl e \<Rightarrow> Inl e
            | Inr ps \<Rightarrow> Inr (if current_shape ! i = 1 then i # ps else ps))
         else Inl IndexError)
      else singleton_positions rest (Suc i) current_shape)"

text \<open>Lines 186-188: the output ellipsis.\<close>

fun ellipsis_out :: "nat list \<Rightarrow> dict \<Rightarrow> dict \<Rightarrow> exn + (nat list \<times> nat list)" where
  "ellipsis_out [] shape_dict axis_map = Inr ([], [])"
| "ellipsis_out (i # is) shape_dict axis_map =
     (case getitem shape_dict (ellipsis_name i) of
        Inl e \<Rightarrow> Inl e
      | Inr s \<Rightarrow>
         (case getitem axis_map (ellipsis_name i) of
            Inl e \<Rightarrow> Inl e
          | Inr p \<Rightarrow>
             (case ellipsis_out is shape_dict axis_map of
                Inl e \<Rightarrow> Inl e
              | Inr (ss, ps) \<Rightarrow> Inr (s # ss, p # ps))))"

text \<open>Lines 182-204: the final shape and the permutation.\<close>

fun build_final ::
  "string list \<Rightarrow> string list \<Rightarrow> nat list \<Rightarrow> int \<Rightarrow> dict \<Rightarrow> dict \<Rightarrow> dict \<Rightarrow> nat list \<Rightarrow> nat list
     \<Rightarrow> exn + (nat list \<times> nat list)" where
  "build_final [] input_axes current_shape n shape_dict axis_map axes_lengths final_shape permutation =
     Inr (final_shape, permutation)"
| "build_final (axis # rest) input_axes current_shape n shape_dict axis_map axes_lengths
       final_shape permutation =
     (if fst (parse_axis axis) = ''...'' then
        (case ellipsis_out [0..<nat n] shape_dict axis_map of
           Inl e \<Rightarrow> Inl e
         | Inr (ss, ps) \<Rightarrow>
             build_final rest input_axes current_shape n shape_dict axis_map axes_lengths
               (final_shape @ ss) (permutation @ ps))
      else if comps_of (snd (parse_axis axis)) \<noteq> [] then
        (case getitems shape_dict (comps_of (snd (parse_axis axis))) of
           Inl e \<Rightarrow> Inl e
         | Inr sizes \<Rightarrow>
            (case getitems axis_map (comps_of (snd (parse_axis axis))) of
               Inl e \<Rightarrow> Inl e
             | Inr perm \<Rightarrow>
                 build_final rest input_axes current_shape n shape_dict axis_map axes_lengths
                   (final_shape @ [prod_list sizes]) (permutation @ perm)))
      else if map_of axes_lengths (fst (parse_axis axis)) \<noteq> None
              \<and> map_of axis_map (fst (parse_axis axis)) = None then
        (case getitem axes_lengths (fst (parse_axis axis)) of
           Inl e \<Rightarrow> Inl e
         | Inr sz \<Rightarrow>
            (case singleton_positions input_axes 0 current_shape of
               Inl e \<Rightarrow> Inl e
             | Inr [] \<Rightarrow> Inl IndexError
             | Inr (singleton_pos # _) \<Rightarrow>
                 build_final rest input_axes current_shape n shape_dict axis_map axes_lengths
                   (final_shape @ [sz]) (permutation @ [singleton_pos])))
      else
        (case getitem shape_dict (fst (parse_axis axis)) of
           Inl e \<Rightarrow> Inl e
         | Inr sz \<Rightarrow>
            (case getitem axis_map (fst (parse_axis axis)) of
               Inl e \<Rightarrow> Inl e
             | Inr pos \<Rightarrow>
                 build_final rest input_axes current_shape n shape_dict axis_map axes_lengths
                   (final_shape @ [sz]) (permutation @ [pos]))))"

text \<open>What lines 108-204 hand over to the execution (lines 206-235).\<close>

record plan =
  p_output_axes :: "string list"
  p_simple :: bool   \<comment> \<open>\<^verbatim>\<open>not has_split and not has_merge\<close>\<close>
  p_n_ellipsis :: int
  p_shape_dict :: dict
  p_ops :: "reshape_op list"
  p_permutation :: "nat list"
  p_final_shape :: "nat list"

definition compile :: "nat list \<Rightarrow> string \<Rightarrow> dict \<Rightarrow> exn + plan" where
  "compile shp pattern axes_lengths =
     (case parser pattern of
        Inl e \<Rightarrow> Inl e
      | Inr (input_axes, output_axes) \<Rightarrow>
         (let has_split = list_ex has_parens input_axes;
              has_merge = list_ex has_parens output_axes;
              ellipsis_present = (''...'' \<in> set input_axes \<or> ''...'' \<in> set output_axes);
              n_base = length (filter (\<lambda>ax. ax \<noteq> ''...'') input_axes);
              n = n_ellipsis shp input_axes
          in case rank_checks has_split has_merge ellipsis_present n_base (length shp) of
               Inl e \<Rightarrow> Inl e
             | Inr _ \<Rightarrow>
            (case walk_input input_axes shp n axes_lengths [] 0 of
               Inl e \<Rightarrow> Inl e
             | Inr walked \<Rightarrow>
            (let shape_dict = merge_hints axes_lengths walked in
             case (if has_merge then merge_check output_axes shape_dict else Inr ()) of
               Inl e \<Rightarrow> Inl e
             | Inr _ \<Rightarrow>
            (case output_check output_axes shape_dict of
               Inl e \<Rightarrow> Inl e
             | Inr _ \<Rightarrow>
            (case build_ops input_axes shp n shape_dict [] [] 0 of
               Inl e \<Rightarrow> Inl e
             | Inr (ops, axis_map) \<Rightarrow>
            (case build_final output_axes input_axes shp n shape_dict axis_map axes_lengths [] [] of
               Inl e \<Rightarrow> Inl e
             | Inr (final_shape, permutation) \<Rightarrow>
                 Inr \<lparr>p_output_axes = output_axes, p_simple = (\<not> has_split \<and> \<not> has_merge),
                      p_n_ellipsis = n, p_shape_dict = shape_dict, p_ops = ops,
                      p_permutation = permutation, p_final_shape = final_shape\<rparr>)))))))"

subsection \<open>\<^verbatim>\<open>rearrange\<close>: execution (lines 206-235)\<close>

text \<open>The calls made to the array library, in order (a call that raises included).\<close>

datatype prim = Reshape "nat list" | Transpose "nat list" | BroadcastTo "nat list"

text \<open>Lines 208-212.\<close>

fun apply_ops ::
  "reshape_op list \<Rightarrow> 'a tensor \<Rightarrow> nat list \<Rightarrow> prim list
     \<Rightarrow> prim list \<times> (exn + ('a tensor \<times> nat list))" where
  "apply_ops [] result current_shape calls = (calls, Inr (result, current_shape))"
| "apply_ops ((axis, shp) # ops) result current_shape calls =
     (let new_shape = take axis current_shape @ shp @ drop (Suc axis) current_shape in
      case np_reshape result new_shape of
        Inl e \<Rightarrow> (calls @ [Reshape new_shape], Inl e)
      | Inr r \<Rightarrow> apply_ops ops r new_shape (calls @ [Reshape new_shape]))"

text \<open>Lines 220-229.\<close>

fun broadcast_shape_of :: "string list \<Rightarrow> int \<Rightarrow> dict \<Rightarrow> dict \<Rightarrow> exn + nat list" where
  "broadcast_shape_of [] n shape_dict axes_lengths = Inr []"
| "broadcast_shape_of (ax # rest) n shape_dict axes_lengths =
     (case (if ax = ''...'' then getitems shape_dict (map ellipsis_name [0..<nat n])
            else if comps_of (snd (parse_axis ax)) \<noteq> [] then
              (case getitems shape_dict (comps_of (snd (parse_axis ax))) of
                 Inl e \<Rightarrow> Inl e
               | Inr sizes \<Rightarrow> Inr [prod_list sizes])
            else Inr [case map_of shape_dict ax of
                        Some v \<Rightarrow> v
                      | None \<Rightarrow> (case map_of axes_lengths ax of Some v \<Rightarrow> v | None \<Rightarrow> 1)]) of
        Inl e \<Rightarrow> Inl e
      | Inr here \<Rightarrow>
         (case broadcast_shape_of rest n shape_dict axes_lengths of
            Inl e \<Rightarrow> Inl e
          | Inr others \<Rightarrow> Inr (here @ others)))"

definition execute :: "plan \<Rightarrow> 'a tensor \<Rightarrow> dict \<Rightarrow> prim list \<times> (exn + 'a tensor)" where
  "execute pl t axes_lengths =
     (case apply_ops (p_ops pl) t (shape t) [] of
        (calls, Inl e) \<Rightarrow> (calls, Inl e)
      | (calls, Inr (result, current_shape)) \<Rightarrow>
         (case (if p_permutation pl \<noteq> []
                then (calls @ [Transpose (p_permutation pl)], np_transpose result (p_permutation pl))
                else (calls, Inr result)) of
            (calls, Inl e) \<Rightarrow> (calls, Inl e)
          | (calls, Inr result) \<Rightarrow>
             (if p_final_shape pl \<noteq> [] then
                (if list_ex (\<lambda>s. s = 1) current_shape \<and> p_simple pl then
                   (case broadcast_shape_of (p_output_axes pl) (p_n_ellipsis pl) (p_shape_dict pl)
                           axes_lengths of
                      Inl e \<Rightarrow> (calls, Inl e)
                    | Inr broadcast_shape \<Rightarrow>
                        (calls @ [BroadcastTo broadcast_shape], np_broadcast_to result broadcast_shape))
                 else (calls @ [Reshape (p_final_shape pl)], np_reshape result (p_final_shape pl)))
              else (calls, Inr result))))"

text \<open>\<^verbatim>\<open>rearrange\<close> with the calls it has made to the array library, and \<^verbatim>\<open>rearrange\<close>.\<close>

definition rearrange_run :: "'a tensor \<Rightarrow> string \<Rightarrow> dict \<Rightarrow> prim list \<times> (exn + 'a tensor)" where
  "rearrange_run t pattern axes_lengths =
     (case compile (shape t) pattern axes_lengths of
        Inl e \<Rightarrow> ([], Inl e)
      | Inr pl \<Rightarrow> execute pl t axes_lengths)"

definition rearrange :: "'a tensor \<Rightarrow> string \<Rightarrow> dict \<Rightarrow> exn + 'a tensor" where
  "rearrange t pattern axes_lengths = snd (rearrange_run t pattern axes_lengths)"

text \<open>The shape of the returned array, or the exception.\<close>

definition result_shape :: "exn + 'a tensor \<Rightarrow> exn + nat list" where
  "result_shape r = map_sum id shape r"

text \<open>An array whose element at a multi-index is that multi-index.\<close>

definition index_tensor :: "nat list \<Rightarrow> (nat list) tensor" where
  "index_tensor shp = \<lparr>shape = shp, elem = (\<lambda>i. i)\<rparr>"

text \<open>The element of the returned array at a multi-index (\<open>None\<close> when the call raised).\<close>

definition result_elem :: "exn + 'a tensor \<Rightarrow> nat list \<Rightarrow> 'a option" where
  "result_elem r idx = (case r of Inl e \<Rightarrow> None | Inr x \<Rightarrow> Some (elem x idx))"


subsection \<open>The pattern notation of the specification\<close>







subsection \<open>Notions used by the element-count property\<close>

text \<open>
  The keys that lines 156-175 put into \<^verbatim>\<open>axis_map\<close>: the names of the input axes after
  the splits.
\<close>

definition axis_names :: "string list \<Rightarrow> int \<Rightarrow> string list" where
  "axis_names input_axes n =
     concat (map (\<lambda>ax. if ax = ''...'' then map ellipsis_name [0..<nat n]
                        else if comps_of (snd (parse_axis ax)) \<noteq> [] then comps_of (snd (parse_axis ax))
                        else [fst (parse_axis ax)]) input_axes)"

text \<open>
  The sizes of the axes that the output introduces (lines 197-200): an output token that is
  not the ellipsis, has a hint and is not the name of an input axis.
\<close>

definition introduced_sizes :: "string list \<Rightarrow> string list \<Rightarrow> int \<Rightarrow> dict \<Rightarrow> nat list" where
  "introduced_sizes output_axes input_axes n axes_lengths =
     concat (map (\<lambda>ax. case map_of axes_lengths ax of
                          None \<Rightarrow> []
                        | Some sz \<Rightarrow> if ax \<noteq> ''...'' \<and> ax \<notin> set (axis_names input_axes n)
                                     then [sz] else []) output_axes)"

text \<open>The last call to the array library was \<^verbatim>\<open>np.broadcast_to\<close>.\<close>

fun ends_with_broadcast :: "prim list \<Rightarrow> bool" where
  "ends_with_broadcast [] = False"
| "ends_with_broadcast [BroadcastTo s] = True"
| "ends_with_broadcast [c] = False"
| "ends_with_broadcast (c # cs) = ends_with_broadcast cs"

text \<open>
  The dictionary of the input walk and the axis map agree on an array shape: they have
  the same keys, and the size recorded for a name is the dimension at its position.
\<close>

definition corr :: "nat list \<Rightarrow> dict \<Rightarrow> dict \<Rightarrow> bool" where
  "corr shp W am =
     ((\<forall>k pos. map_of am k = Some pos \<longrightarrow> pos < length shp \<and> map_of W k = Some (shp ! pos))
      \<and> (\<forall>k. map_of am k = None \<longrightarrow> map_of W k = None))"

section \<open>Properties\<close>

subsection \<open>Running a compiled plan\<close>

lemma rearrange_run_plan:
  "compile (shape t) p h = Inr pl \<Longrightarrow> rearrange_run t p h = execute pl t h"
  by (simp add: rearrange_run_def)

lemma rearrange_run_raise:
  "compile (shape t) p h = Inl e \<Longrightarrow> rearrange_run t p h = ([], Inl e)"
  by (simp add: rearrange_run_def)

subsection \<open>Broadcast via singleton\<close>

lemma broadcast_example_plan:
  "compile [3, 1, 5] ''a 1 c -> a b c'' [(''b'', 4)] =
     Inr \<lparr>p_output_axes = [''a'', ''b'', ''c''], p_simple = True, p_n_ellipsis = 0,
          p_shape_dict = [(''a'', 3), (''1'', 1), (''c'', 5), (''b'', 4)], p_ops = [],
          p_permutation = [0, 1, 2], p_final_shape = [3, 4, 5]\<rparr>"
  by code_simp

text \<open>
  C9. For every array of shape \<open>(3,1,5)\<close>, \<^verbatim>\<open>rearrange\<close> with the pattern
  \<^verbatim>\<open>a 1 c -> a b c\<close> and the hint \<open>b=4\<close> returns an array of shape \<open>(3,4,5)\<close> whose element
  at \<open>[i,j,k]\<close> is the element at \<open>[i,0,k]\<close> of the argument: the axis of size 1 is repeated
  four times.
\<close>

theorem broadcast_via_singleton:
  assumes "shape t = [3, 1, 5]"
  shows "result_shape (rearrange t ''a 1 c -> a b c'' [(''b'', 4)]) = Inr [3, 4, 5]
     \<and> (\<forall>i j k. i < 3 \<and> j < 4 \<and> k < 5 \<longrightarrow>
          result_elem (rearrange t ''a 1 c -> a b c'' [(''b'', 4)]) [i, j, k]
            = Some (elem t [i, 0, k]))"
proof -
  have "compile (shape t) ''a 1 c -> a b c'' [(''b'', 4)] =
     Inr \<lparr>p_output_axes = [''a'', ''b'', ''c''], p_simple = True, p_n_ellipsis = 0,
          p_shape_dict = [(''a'', 3), (''1'', 1), (''c'', 5), (''b'', 4)], p_ops = [],
          p_permutation = [0, 1, 2], p_final_shape = [3, 4, 5]\<rparr>"
    by (simp only: assms broadcast_example_plan)
  from rearrange_run_plan [OF this] show ?thesis
    using assms
    by (simp add: rearrange_def execute_def np_transpose_def np_broadcast_to_def
        result_shape_def result_elem_def getitem_def parse_axis_def)
qed

theorem broadcast_via_singleton_witness:
  "shape (index_tensor [3, 1, 5]) = [3, 1, 5]
   \<and> result_shape (rearrange (index_tensor [3, 1, 5]) ''a 1 c -> a b c'' [(''b'', 4)])
       = Inr [3, 4, 5]
   \<and> result_elem (rearrange (index_tensor [3, 1, 5]) ''a 1 c -> a b c'' [(''b'', 4)]) [2, 3, 4]
       = Some [2, 0, 4]"
proof -
  have s: "shape (index_tensor [3, 1, 5]) = [3, 1, 5]"
    by (simp add: index_tensor_def)
  have e: "elem (index_tensor [3, 1, 5]) [2, 0, 4] = [2, 0, 4]"
    by (simp add: index_tensor_def)
  from broadcast_via_singleton [OF s] s e show ?thesis
    by simp
qed

subsection \<open>A composite whose members are all hinted\<close>

text \<open>
  C2. The array has shape \<open>(12)\<close>, the pattern is \<^verbatim>\<open>(a b) -> a b\<close> and both members are
  hinted, \<open>a=2\<close> and \<open>b=3\<close>. The product 6 of the members is not the size 12 of the
  dimension, but 12 is a multiple of 6: \<^verbatim>\<open>validate_shapes\<close> raises nothing and returns the
  sizes \<open>a=2\<close>, \<open>b=3\<close>; the call fails only in numpy's \<^verbatim>\<open>reshape\<close>, with a
  \<^verbatim>\<open>ValueError\<close>.
\<close>

theorem all_hinted_split_not_rejected:
  "validate_shapes (index_tensor [12]) [''(a b)''] [''a'', ''b''] [(''a'', 2), (''b'', 3)]
     = Inr [(''a'', 2), (''b'', 3)]
   \<and> fst (rearrange_run (index_tensor [12]) ''(a b) -> a b'' [(''a'', 2), (''b'', 3)])
       = [Reshape [2, 3]]
   \<and> result_shape (rearrange (index_tensor [12]) ''(a b) -> a b'' [(''a'', 2), (''b'', 3)])
       = Inl (ValueError InReshape)"
  by code_simp

subsection \<open>Exceptions and the calls to the array library\<close>
lemma getitem_raise: "getitem d k = Inl e \<Longrightarrow> e = KeyError k"
  by (simp add: getitem_def split: option.splits)

lemma getitems_raise: "getitems d ks = Inl e \<Longrightarrow> \<exists>k. e = KeyError k"
  by (induction ks arbitrary: e) (auto split: sum.splits dest: getitem_raise)

lemma not_parens_parse_axis: "\<not> has_parens ax \<Longrightarrow> parse_axis ax = (ax, None)"
  by (auto simp: parse_axis_def has_parens_def)

lemma ellipsis_out_getitems:
  "ellipsis_out is sd am = Inr (ss, ps) \<Longrightarrow>
     getitems sd (map ellipsis_name is) = Inr ss \<and> getitems am (map ellipsis_name is) = Inr ps"
  by (induction "is" arbitrary: ss ps) (auto split: sum.splits prod.splits)

lemma build_final_broadcast_shape:
  "build_final outs ins cs n sd am h fs perm = Inr r \<Longrightarrow> \<forall>ax\<in>set outs. \<not> has_parens ax \<Longrightarrow>
     \<exists>bs. broadcast_shape_of outs n sd h = Inr bs"
proof (induction outs arbitrary: fs perm r)
  case Nil
  then show ?case by simp
next
  case (Cons ax outs)
  from Cons.prems(2) have pa: "parse_axis ax = (ax, None)"
    by (simp add: not_parens_parse_axis)
  from Cons.prems(2) have rest: "\<forall>ax\<in>set outs. \<not> has_parens ax" by simp
  from Cons.prems(1) obtain fs' perm' r' where
    "build_final outs ins cs n sd am h fs' perm' = Inr r'"
    by (auto simp: pa split: if_splits sum.splits prod.splits list.splits)
  from Cons.IH [OF this rest] obtain bs where bs: "broadcast_shape_of outs n sd h = Inr bs" ..
  show ?case
  proof (cases "ax = ''...''")
    case True
    with Cons.prems(1) pa obtain ss ps where "ellipsis_out [0..<nat n] sd am = Inr (ss, ps)"
      by (auto split: sum.splits prod.splits)
    then have "getitems sd (map ellipsis_name [0..<nat n]) = Inr ss"
      by (simp add: ellipsis_out_getitems)
    with True bs show ?thesis by simp
  next
    case False
    with bs show ?thesis by (simp add: pa)
  qed
qed

lemma apply_ops_raise:
  "apply_ops ops r cs calls = (calls', Inl e) \<Longrightarrow> e = ValueError InReshape"
  by (induction ops arbitrary: r cs calls)
     (auto simp: np_reshape_def Let_def split: sum.splits if_splits)

lemma compile_simple_broadcast_shape:
  assumes "compile shp p h = Inr pl" and "p_simple pl"
  shows "\<exists>bs. broadcast_shape_of (p_output_axes pl) (p_n_ellipsis pl) (p_shape_dict pl) h = Inr bs"
proof -
  from assms obtain ins outs am where
    bf: "build_final outs ins shp (n_ellipsis shp ins) (p_shape_dict pl) am h [] [] =
        Inr (p_final_shape pl, p_permutation pl)"
    and o: "p_output_axes pl = outs" and n: "p_n_ellipsis pl = n_ellipsis shp ins"
    and s: "\<not> list_ex has_parens outs"
    by (auto simp: compile_def Let_def split: sum.splits prod.splits if_splits)
  from s have "\<forall>ax\<in>set outs. \<not> has_parens ax" by (simp add: list_ex_iff)
  from build_final_broadcast_shape [OF bf this] o n show ?thesis by simp
qed

lemma execute_raise:
  assumes "compile shp p h = Inr pl" and "execute pl t h = (calls, Inl e)"
  shows "e \<in> {ValueError InReshape, ValueError InTranspose, ValueError InBroadcast}"
proof -
  show ?thesis
    using assms(2) compile_simple_broadcast_shape [OF assms(1)]
    by (auto simp: execute_def np_reshape_def np_transpose_def np_broadcast_to_def Let_def
        split: prod.splits sum.splits if_splits dest: apply_ops_raise)
qed

text \<open>
  C1 (as amended). Every exception of \<^verbatim>\<open>rearrange\<close> other than a \<^verbatim>\<open>ValueError\<close>
  raised by one of the three numpy primitives (so every \<^verbatim>\<open>Error\<close> of the module, and
  every \<^verbatim>\<open>IndexError\<close>, \<^verbatim>\<open>KeyError\<close> and unpacking \<^verbatim>\<open>ValueError\<close>) is raised by
  lines 108-204, before any primitive has been called.
\<close>

theorem module_errors_before_primitives:
  assumes "rearrange_run t p h = (calls, Inl e)"
    and "e \<notin> {ValueError InReshape, ValueError InTranspose, ValueError InBroadcast}"
  shows "calls = [] \<and> compile (shape t) p h = Inl e"
proof (cases "compile (shape t) p h")
  case (Inl e')
  with assms(1) show ?thesis by (simp add: rearrange_run_def)
next
  case (Inr pl)
  with assms(1) have "execute pl t h = (calls, Inl e)" by (simp add: rearrange_run_def)
  from execute_raise [OF Inr this] assms(2) show ?thesis by simp
qed

theorem module_errors_before_primitives_witness:
  "rearrange_run (index_tensor [3, 4]) ''a b -> a c'' [] = ([], Inl (Error (UnknownAxis ''c'')))
   \<and> Error (UnknownAxis ''c'') \<notin> {ValueError InReshape, ValueError InTranspose, ValueError InBroadcast}
   \<and> compile (shape (index_tensor [3, 4])) ''a b -> a c'' [] = Inl (Error (UnknownAxis ''c''))"
proof -
  have c: "compile (shape (index_tensor [3, 4])) ''a b -> a c'' [] = Inl (Error (UnknownAxis ''c''))"
    by code_simp
  have r: "rearrange_run (index_tensor [3, 4]) ''a b -> a c'' [] = ([], Inl (Error (UnknownAxis ''c'')))"
    by (rule rearrange_run_raise [OF c])
  have n: "Error (UnknownAxis ''c'') \<notin> {ValueError InReshape, ValueError InTranspose, ValueError InBroadcast}"
    by simp
  from module_errors_before_primitives [OF r n] r n show ?thesis
    by simp
qed

text \<open>
  C1 as stated fails: on an array of shape \<open>(12)\<close>, the pattern \<^verbatim>\<open>(a b) -> a a\<close> with the
  hint \<open>a=3\<close> passes every check of lines 108-204; the split \<^verbatim>\<open>reshape\<close> to \<open>(3,4)\<close> is
  executed, and the error (a repeated axis) is only detected by \<^verbatim>\<open>np.transpose\<close>.
\<close>

theorem error_after_first_primitive:
  "fst (rearrange_run (index_tensor [12]) ''(a b) -> a a'' [(''a'', 3)])
     = [Reshape [3, 4], Transpose [0, 0]]
   \<and> result_shape (rearrange (index_tensor [12]) ''(a b) -> a a'' [(''a'', 3)])
       = Inl (ValueError InTranspose)"
  by code_simp

subsection \<open>Rank checks\<close>

lemma compile_rank_raise:
  assumes "parser p = Inr (ins, outs)"
    and "rank_checks (list_ex has_parens ins) (list_ex has_parens outs)
           (''...'' \<in> set ins \<or> ''...'' \<in> set outs)
           (length (filter (\<lambda>ax. ax \<noteq> ''...'') ins)) (length shp) = Inl e"
  shows "compile shp p h = Inl e"
  using assms by (simp add: compile_def Let_def)

lemma rearrange_raise: "compile (shape t) p h = Inl e \<Longrightarrow> rearrange t p h = Inl e"
  by (simp add: rearrange_def rearrange_run_def)

text \<open>
  C6 (as amended). When neither side of the pattern has a token with parentheses, an
  ellipsis is present and the array has fewer dimensions than the input side has
  non-ellipsis tokens, \<^verbatim>\<open>rearrange\<close> raises \<^verbatim>\<open>Error\<close> (too many explicit axes). When the
  input side has a token with parentheses and the number of its non-ellipsis tokens differs
  from the rank, it raises \<^verbatim>\<open>Error\<close> (split rank mismatch).
\<close>

theorem ellipsis_rank_errors:
  assumes "parser p = Inr (ins, outs)"
  shows "(\<not> list_ex has_parens ins \<and> \<not> list_ex has_parens outs
            \<and> (''...'' \<in> set ins \<or> ''...'' \<in> set outs)
            \<and> length (shape t) < length (filter (\<lambda>ax. ax \<noteq> ''...'') ins)
          \<longrightarrow> rearrange t p h = Inl (Error TooManyExplicitAxes))
       \<and> (list_ex has_parens ins
            \<and> length (filter (\<lambda>ax. ax \<noteq> ''...'') ins) \<noteq> length (shape t)
          \<longrightarrow> rearrange t p h = Inl (Error SplitRankMismatch))"
proof (intro conjI impI)
  assume "\<not> list_ex has_parens ins \<and> \<not> list_ex has_parens outs
            \<and> (''...'' \<in> set ins \<or> ''...'' \<in> set outs)
            \<and> length (shape t) < length (filter (\<lambda>ax. ax \<noteq> ''...'') ins)"
  then have "rank_checks (list_ex has_parens ins) (list_ex has_parens outs)
           (''...'' \<in> set ins \<or> ''...'' \<in> set outs)
           (length (filter (\<lambda>ax. ax \<noteq> ''...'') ins)) (length (shape t)) = Inl (Error TooManyExplicitAxes)"
    by (simp add: rank_checks_def)
  from rearrange_raise [OF compile_rank_raise [OF assms this]]
  show "rearrange t p h = Inl (Error TooManyExplicitAxes)" .
next
  assume "list_ex has_parens ins
            \<and> length (filter (\<lambda>ax. ax \<noteq> ''...'') ins) \<noteq> length (shape t)"
  then have "rank_checks (list_ex has_parens ins) (list_ex has_parens outs)
           (''...'' \<in> set ins \<or> ''...'' \<in> set outs)
           (length (filter (\<lambda>ax. ax \<noteq> ''...'') ins)) (length (shape t)) = Inl (Error SplitRankMismatch)"
    by (simp add: rank_checks_def)
  from rearrange_raise [OF compile_rank_raise [OF assms this]]
  show "rearrange t p h = Inl (Error SplitRankMismatch)" .
qed


theorem ellipsis_rank_errors_witness:
  "parser ''... a b c -> c b a ...'' = Inr ([''...'', ''a'', ''b'', ''c''], [''c'', ''b'', ''a'', ''...''])
   \<and> rearrange (index_tensor [3, 4]) ''... a b c -> c b a ...'' [] = Inl (Error TooManyExplicitAxes)
   \<and> parser ''... (a b) c -> a b c'' = Inr ([''...'', ''(a b)'', ''c''], [''a'', ''b'', ''c''])
   \<and> rearrange (index_tensor [2, 6, 5]) ''... (a b) c -> a b c'' [(''a'', 2)] = Inl (Error SplitRankMismatch)"
proof -
  have p1: "parser ''... a b c -> c b a ...'' = Inr ([''...'', ''a'', ''b'', ''c''], [''c'', ''b'', ''a'', ''...''])"
    by code_simp
  have p2: "parser ''... (a b) c -> a b c'' = Inr ([''...'', ''(a b)'', ''c''], [''a'', ''b'', ''c''])"
    by code_simp
  have h1: "\<not> list_ex has_parens [''...'', ''a'', ''b'', ''c''] \<and> \<not> list_ex has_parens [''c'', ''b'', ''a'', ''...'']
            \<and> (''...'' \<in> set [''...'', ''a'', ''b'', ''c''] \<or> ''...'' \<in> set [''c'', ''b'', ''a'', ''...''])
            \<and> length (shape (index_tensor [3, 4])) < length (filter (\<lambda>ax. ax \<noteq> ''...'') [''...'', ''a'', ''b'', ''c''])"
    by (simp add: has_parens_def index_tensor_def)
  have h2: "list_ex has_parens [''...'', ''(a b)'', ''c'']
            \<and> length (filter (\<lambda>ax. ax \<noteq> ''...'') [''...'', ''(a b)'', ''c'']) \<noteq> length (shape (index_tensor [2, 6, 5]))"
    by (simp add: has_parens_def index_tensor_def)
  from ellipsis_rank_errors [OF p1, of "index_tensor [3, 4]" "[]"] h1
    ellipsis_rank_errors [OF p2, of "index_tensor [2, 6, 5]" "[(''a'', 2)]"] h2 p1 p2
  show ?thesis by blast
qed

text \<open>
  C6 as stated fails: the number of ellipsis tokens is never checked. On an array of shape
  \<open>(3)\<close> the pattern \<^verbatim>\<open>... ... a -> a\<close> has two ellipsis tokens on its input side and the
  call returns an array of shape \<open>(3)\<close>.
\<close>

theorem two_ellipses_accepted:
  "result_shape (rearrange (index_tensor [3]) ''... ... a -> a'' []) = Inr [3]"
  by code_simp

subsection \<open>Hints and the shape dictionary\<close>

lemma map_of_merge_hints:
  "map_of (merge_hints h sd) k = (case map_of sd k of Some v \<Rightarrow> Some v | None \<Rightarrow> map_of h k)"
  unfolding merge_hints_def
proof (induction h arbitrary: sd)
  case Nil
  then show ?case by (simp split: option.splits)
next
  case (Cons a h)
  obtain name sz where a: "a = (name, sz)" by (cases a)
  show ?case
    by (simp add: a Cons.IH update_conv' split: option.splits)
qed

subsection \<open>Hints for names that the input already resolves\<close>

lemma validate_shapes_keeps_walk:
  assumes "walk_input ins (shape t) (n_ellipsis (shape t) ins) h [] 0 = Inr walked"
    and "map_of walked name = Some v"
  shows "\<exists>sd. validate_shapes t ins outs h = Inr sd \<and> map_of sd name = Some v"
  using assms by (simp add: validate_shapes_def map_of_merge_hints)

lemma transpose_pattern: "parser ''h w -> w h'' = Inr ([''h'', ''w''], [''w'', ''h''])"
  by code_simp

lemma transpose_plan:
  "compile [a, b] ''h w -> w h'' h =
     Inr \<lparr>p_output_axes = [''w'', ''h''], p_simple = True, p_n_ellipsis = 0,
          p_shape_dict = merge_hints h [(''h'', a), (''w'', b)], p_ops = [],
          p_permutation = [1, 0], p_final_shape = [b, a]\<rparr>"
  by (simp add: compile_def transpose_pattern has_parens_def rank_checks_def n_ellipsis_def
      parse_axis_def map_of_merge_hints getitem_def)

lemma transpose_any_hints:
  assumes "shape t = [a, b]"
  shows "result_shape (rearrange t ''h w -> w h'' h) = Inr [b, a]"
proof -
  have "compile (shape t) ''h w -> w h'' h =
     Inr \<lparr>p_output_axes = [''w'', ''h''], p_simple = True, p_n_ellipsis = 0,
          p_shape_dict = merge_hints h [(''h'', a), (''w'', b)], p_ops = [],
          p_permutation = [1, 0], p_final_shape = [b, a]\<rparr>"
    by (simp only: assms transpose_plan)
  from rearrange_run_plan [OF this] show ?thesis
    using assms
    by (simp add: rearrange_def execute_def np_transpose_def np_broadcast_to_def np_reshape_def
        result_shape_def parse_axis_def map_of_merge_hints mult.commute)
qed

text \<open>
  C10. A size that the walk over the input tokens has put into the shape dictionary is
  the one \<^verbatim>\<open>validate_shapes\<close> returns, whatever the hints say about that name; nothing
  compares the two. For every array of shape \<open>(a,b)\<close> and every dictionary of hints (so also
  \<open>h=999\<close> on shape \<open>(3,4)\<close>), \<^verbatim>\<open>rearrange\<close> with \<^verbatim>\<open>h w -> w h\<close> returns shape \<open>(b,a)\<close>.
\<close>

theorem hint_for_resolved_name_ignored:
  "(walk_input ins (shape t) (n_ellipsis (shape t) ins) h [] 0 = Inr walked
      \<and> map_of walked name = Some v
    \<longrightarrow> (\<exists>sd. validate_shapes t ins outs h = Inr sd \<and> map_of sd name = Some v))
   \<and> (shape u = [a, b] \<longrightarrow> result_shape (rearrange u ''h w -> w h'' hints) = Inr [b, a])"
  using validate_shapes_keeps_walk transpose_any_hints by blast

theorem hint_for_resolved_name_ignored_witness:
  "walk_input [''h'', ''w''] (shape (index_tensor [3, 4]))
       (n_ellipsis (shape (index_tensor [3, 4])) [''h'', ''w'']) [(''h'', 999)] [] 0
     = Inr [(''h'', 3), (''w'', 4)]
   \<and> map_of [(''h'', 3), (''w'', 4)] ''h'' = Some (3::nat)
   \<and> map_sum id (\<lambda>sd. map_of sd ''h'')
         (validate_shapes (index_tensor [3, 4]) [''h'', ''w''] [''w'', ''h''] [(''h'', 999)])
       = Inr (Some 3)
   \<and> shape (index_tensor [3, 4]) = [3, 4]
   \<and> result_shape (rearrange (index_tensor [3, 4]) ''h w -> w h'' [(''h'', 999)]) = Inr [4, 3]"
proof -
  have w: "walk_input [''h'', ''w''] (shape (index_tensor [3, 4]))
       (n_ellipsis (shape (index_tensor [3, 4])) [''h'', ''w'']) [(''h'', 999)] [] 0
     = Inr [(''h'', 3), (''w'', 4)]"
    by code_simp
  have m: "map_of [(''h'', 3), (''w'', 4)] ''h'' = Some (3::nat)"
    by simp
  have s: "shape (index_tensor [3, 4]) = [3, 4]"
    by (simp add: index_tensor_def)
  from hint_for_resolved_name_ignored
    [of "[''h'', ''w'']" "index_tensor [3, 4]" "[(''h'', 999)]" "[(''h'', 3), (''w'', 4)]"
        "''h''" 3 "[''w'', ''h'']" "index_tensor [3, 4]" 3 4 "[(''h'', 999)]"]
    w m s
  show ?thesis by auto
qed

subsection \<open>Unknown output axis\<close>

lemma output_check_unknown:
  assumes "tok \<in> set outs" "tok \<noteq> ''...''" "\<not> has_parens tok" "map_of sd tok = None"
  shows "\<exists>name. output_check outs sd = Inl (Error (UnknownAxis name)) \<and> map_of sd name = None"
  using assms
proof (induction outs)
  case Nil
  then show ?case by simp
next
  case (Cons ax outs)
  show ?case
  proof (cases "fst (parse_axis ax) \<noteq> ''...'' \<and> comps_of (snd (parse_axis ax)) = []
         \<and> map_of sd (fst (parse_axis ax)) = None")
    case True
    then show ?thesis by auto
  next
    case False
    with Cons.prems have "tok \<noteq> ax"
      by (auto simp: not_parens_parse_axis)
    with Cons have "\<exists>name. output_check outs sd = Inl (Error (UnknownAxis name)) \<and> map_of sd name = None"
      by simp
    with False show ?thesis by auto
  qed
qed

lemma merge_check_raise: "merge_check outs sd = Inl e \<Longrightarrow> e = Error MergeUnknownComponents"
  by (simp add: merge_check_def Let_def split: if_splits)

lemma unknown_axis_general:
  assumes p: "parser p = Inr (ins, outs)"
    and r: "rank_checks (list_ex has_parens ins) (list_ex has_parens outs)
           (''...'' \<in> set ins \<or> ''...'' \<in> set outs)
           (length (filter (\<lambda>ax. ax \<noteq> ''...'') ins)) (length (shape t)) = Inr ()"
    and v: "validate_shapes t ins outs h = Inr sd"
    and tok: "tok \<in> set outs" "tok \<noteq> ''...''" "\<not> has_parens tok" "map_of sd tok = None"
  shows "(list_ex has_parens outs \<and> rearrange t p h = Inl (Error MergeUnknownComponents))
       \<or> (\<exists>name. map_of sd name = None \<and> rearrange t p h = Inl (Error (UnknownAxis name)))"
proof -
  from v obtain walked where w: "walk_input ins (shape t) (n_ellipsis (shape t) ins) h [] 0 = Inr walked"
    and sd: "sd = merge_hints h walked"
    by (auto simp: validate_shapes_def split: sum.splits)
  from output_check_unknown [OF tok] obtain name where
    oc: "output_check outs sd = Inl (Error (UnknownAxis name))" and n: "map_of sd name = None"
    by blast
  show ?thesis
  proof (cases "list_ex has_parens outs \<and> merge_check outs sd \<noteq> Inr ()")
    case True
    then have "merge_check outs sd = Inl (Error MergeUnknownComponents)"
      by (cases "merge_check outs sd") (auto dest: merge_check_raise)
    with True p r w sd have "compile (shape t) p h = Inl (Error MergeUnknownComponents)"
      by (simp add: compile_def Let_def)
    with True show ?thesis by (simp add: rearrange_raise)
  next
    case False
    with p r w sd oc have "compile (shape t) p h = Inl (Error (UnknownAxis name))"
      by (auto simp: compile_def Let_def)
    with n show ?thesis by (auto simp: rearrange_raise)
  qed
qed

lemma unknown_c_pattern: "parser ''a b -> a c'' = Inr ([''a'', ''b''], [''a'', ''c''])"
  by code_simp

lemma unknown_c_example:
  assumes "map_of h ''c'' = None"
  shows "\<exists>m. rearrange t ''a b -> a c'' h = Inl (Error m)
           \<and> (length (shape t) = 2 \<longrightarrow> m = UnknownAxis ''c'')"
proof (cases "length (shape t) = 2")
  case False
  then have "compile (shape t) ''a b -> a c'' h = Inl (Error TransposeRankMismatch)"
    by (simp add: compile_def unknown_c_pattern has_parens_def rank_checks_def)
  with False show ?thesis by (simp add: rearrange_raise)
next
  case True
  then obtain x y where s: "shape t = [x, y]"
    by (cases "shape t"; simp) (metis Suc_length_conv length_0_conv One_nat_def Suc_1 Suc_inject)
  have "compile [x, y] ''a b -> a c'' h = Inl (Error (UnknownAxis ''c''))"
    using assms
    by (simp add: compile_def unknown_c_pattern has_parens_def rank_checks_def n_ellipsis_def
      parse_axis_def map_of_merge_hints)
  with s show ?thesis by (simp add: rearrange_raise)
qed

text \<open>
  C8. When the pattern is parsed, the rank checks pass and \<^verbatim>\<open>validate_shapes\<close> returns
  the shape dictionary, an output token that is a simple name (not the ellipsis, no
  parentheses) and is not a key of the dictionary makes \<^verbatim>\<open>rearrange\<close> raise \<^verbatim>\<open>Error\<close>:
  ``Unknown axis'' for an output name that is not in the dictionary, or, when the output also
  has a composite with an unknown member, ``Merge contains unknown components'', which is
  tested first. With \<^verbatim>\<open>a b -> a c\<close> and no hint for \<open>c\<close> every call raises \<^verbatim>\<open>Error\<close>, and
  on an array of rank 2 the error is ``Unknown axis c''.
\<close>

theorem unknown_output_axis:
  "(parser p = Inr (ins, outs)
      \<and> rank_checks (list_ex has_parens ins) (list_ex has_parens outs)
           (''...'' \<in> set ins \<or> ''...'' \<in> set outs)
           (length (filter (\<lambda>ax. ax \<noteq> ''...'') ins)) (length (shape t)) = Inr ()
      \<and> validate_shapes t ins outs h = Inr sd
      \<and> tok \<in> set outs \<and> tok \<noteq> ''...'' \<and> \<not> has_parens tok \<and> map_of sd tok = None
    \<longrightarrow> (list_ex has_parens outs \<and> rearrange t p h = Inl (Error MergeUnknownComponents))
        \<or> (\<exists>name. map_of sd name = None \<and> rearrange t p h = Inl (Error (UnknownAxis name))))
   \<and> (map_of hints ''c'' = None
    \<longrightarrow> (\<exists>m. rearrange u ''a b -> a c'' hints = Inl (Error m)
             \<and> (length (shape u) = 2 \<longrightarrow> m = UnknownAxis ''c'')))"
  using unknown_axis_general unknown_c_example by blast

theorem unknown_output_axis_witness:
  "parser ''a b -> a c'' = Inr ([''a'', ''b''], [''a'', ''c''])
   \<and> rank_checks (list_ex has_parens [''a'', ''b'']) (list_ex has_parens [''a'', ''c''])
        (''...'' \<in> set [''a'', ''b''] \<or> ''...'' \<in> set [''a'', ''c''])
        (length (filter (\<lambda>ax. ax \<noteq> ''...'') [''a'', ''b'']))
        (length (shape (index_tensor [3, 4]))) = Inr ()
   \<and> validate_shapes (index_tensor [3, 4]) [''a'', ''b''] [''a'', ''c''] []
        = Inr [(''a'', 3), (''b'', 4)]
   \<and> ''c'' \<in> set [''a'', ''c''] \<and> ''c'' \<noteq> ''...'' \<and> \<not> has_parens ''c''
   \<and> map_of [(''a'', 3), (''b'', 4 :: nat)] ''c'' = None
   \<and> map_of ([] :: dict) ''c'' = None
   \<and> rearrange (index_tensor [3, 4]) ''a b -> a c'' [] = Inl (Error (UnknownAxis ''c''))"
proof -
  have p: "parser ''a b -> a c'' = Inr ([''a'', ''b''], [''a'', ''c''])"
    by code_simp
  have r: "rank_checks (list_ex has_parens [''a'', ''b'']) (list_ex has_parens [''a'', ''c''])
        (''...'' \<in> set [''a'', ''b''] \<or> ''...'' \<in> set [''a'', ''c''])
        (length (filter (\<lambda>ax. ax \<noteq> ''...'') [''a'', ''b'']))
        (length (shape (index_tensor [3, 4]))) = Inr ()"
    by (simp add: rank_checks_def has_parens_def index_tensor_def)
  have v: "validate_shapes (index_tensor [3, 4]) [''a'', ''b''] [''a'', ''c''] []
        = Inr [(''a'', 3), (''b'', 4)]"
    by code_simp
  have k: "''c'' \<in> set [''a'', ''c''] \<and> ''c'' \<noteq> ''...'' \<and> \<not> has_parens ''c''
      \<and> map_of [(''a'', 3), (''b'', 4 :: nat)] ''c'' = None \<and> map_of ([] :: dict) ''c'' = None"
    by (simp add: has_parens_def)
  have l: "length (shape (index_tensor [3, 4])) = 2"
    by (simp add: index_tensor_def)
  from unknown_output_axis
    [of "''a b -> a c''" "[''a'', ''b'']" "[''a'', ''c'']" "index_tensor [3, 4]" "[]"
        "[(''a'', 3), (''b'', 4)]" "''c''" "[]" "index_tensor [3, 4]"]
    p r v k l
  show ?thesis by auto
qed

subsection \<open>Ambiguous splits\<close>
















subsection \<open>The tokenizer\<close>




lemma not_isspace_paren [simp]: "\<not> isspace (CHR ''('')" "\<not> isspace (CHR '')'')"
  by (simp_all add: isspace_def)






















subsection \<open>Element counts of the primitives\<close>

lemma permutation_set:
  assumes "length perm = n" "distinct perm" "list_all (\<lambda>a. a < n) perm"
  shows "set perm = {0..<n}"
proof -
  from assms(3) have "set perm \<subseteq> {0..<n}" by (auto simp: list_all_iff)
  moreover from assms(1,2) have "card (set perm) = card {0..<n}"
    by (simp add: distinct_card)
  ultimately show ?thesis by (simp add: card_subset_eq)
qed

lemma prod_list_permutation:
  fixes shp :: "nat list"
  assumes "length perm = length shp" "distinct perm" "list_all (\<lambda>a. a < length shp) perm"
  shows "prod_list (map (\<lambda>a. shp ! a) perm) = prod_list shp"
proof -
  have "prod_list (map (\<lambda>a. shp ! a) perm) = prod (\<lambda>a. shp ! a) (set perm)"
    using assms(2) by (simp add: prod.distinct_set_conv_list)
  also have "\<dots> = prod (\<lambda>a. shp ! a) (set [0..<length shp])"
    using permutation_set [OF assms] by simp
  also have "\<dots> = prod_list (map (\<lambda>a. shp ! a) [0..<length shp])"
    using prod.distinct_set_conv_list [of "[0..<length shp]" "\<lambda>a. shp ! a"] by simp
  also have "\<dots> = prod_list shp" by (simp add: map_nth)
  finally show ?thesis .
qed

lemma np_reshape_shape:
  "np_reshape t s = Inr r \<Longrightarrow> shape r = s \<and> prod_list (shape r) = prod_list (shape t)"
  by (auto simp: np_reshape_def split: if_splits)

lemma np_transpose_shape:
  "np_transpose t perm = Inr r \<Longrightarrow>
     shape r = map (\<lambda>a. shape t ! a) perm \<and> length perm = length (shape t) \<and> distinct perm
     \<and> list_all (\<lambda>a. a < length (shape t)) perm"
  by (auto simp: np_transpose_def split: if_splits)

lemma np_transpose_prod:
  "np_transpose t perm = Inr r \<Longrightarrow> prod_list (shape r) = prod_list (shape t)"
  using np_transpose_shape [of t perm r] by (simp add: prod_list_permutation)

lemma apply_ops_result:
  "apply_ops ops r cs calls = (calls', Inr (r', cs')) \<Longrightarrow>
     prod_list (shape r') = prod_list (shape r) \<and> (ops = [] \<longrightarrow> r' = r \<and> cs' = cs \<and> calls' = calls)
     \<and> (\<exists>more. calls' = calls @ more \<and> (\<forall>c\<in>set more. \<exists>s. c = Reshape s))"
proof (induction ops arbitrary: r cs calls)
  case Nil
  then show ?case by simp
next
  case (Cons op ops)
  obtain axis shp where op: "op = (axis, shp)" by (cases op)
  let ?ns = "take axis cs @ shp @ drop (Suc axis) cs"
  from Cons.prems obtain r1 where r1: "np_reshape r ?ns = Inr r1"
    and rest: "apply_ops ops r1 ?ns (calls @ [Reshape ?ns]) = (calls', Inr (r', cs'))"
    by (auto simp: op Let_def split: sum.splits)
  from Cons.IH [OF rest] np_reshape_shape [OF r1] show ?case
    by auto
qed


subsection \<open>The input walk and the axis map, without composites\<close>

lemma corr_update:
  "corr shp W am \<Longrightarrow> pos < length shp \<Longrightarrow>
     corr shp (AList.update k (shp ! pos) W) (AList.update k pos am)"
  unfolding corr_def update_conv' by (simp add: fun_upd_def)

lemma corr_ellipsis:
  assumes "ellipsis_loop [k..<m] shp W (base + k) = Inr (W', idx')" "corr shp W am" "k \<le> m"
  shows "corr shp W' (foldl (\<lambda>m j. AList.update (ellipsis_name j) (base + j) m) am [k..<m])
         \<and> idx' = base + m"
  using assms
proof (induction "m - k" arbitrary: k W am)
  case 0
  then show ?case by simp
next
  case (Suc d)
  then have km: "k < m" by simp
  then have upt: "[k..<m] = k # [Suc k..<m]" by (simp add: upt_rec)
  from Suc.prems(1) have idx: "base + k < length shp"
    and rest: "ellipsis_loop [Suc k..<m] shp (AList.update (ellipsis_name k) (shp ! (base + k)) W)
                 (base + Suc k) = Inr (W', idx')"
    by (auto simp: upt split: if_splits)
  from Suc.hyps(2) have d: "d = m - Suc k" by simp
  from km have le: "Suc k \<le> m" by simp
  from Suc.hyps(1) [OF d rest corr_update [OF Suc.prems(2) idx] le]
  show ?case by (simp add: upt)
qed

lemma walk_build_corr:
  assumes "\<forall>ax\<in>set ins. \<not> has_parens ax"
    and "walk_input ins shp n h W0 idx = Inr W"
    and "build_ops ins shp n sd ops0 am0 idx = Inr (ops, am)"
    and "corr shp W0 am0"
  shows "corr shp W am \<and> ops = ops0"
  using assms
proof (induction ins arbitrary: W0 am0 idx)
  case Nil
  then show ?case by simp
next
  case (Cons ax ins)
  from Cons.prems(1) have pa: "parse_axis ax = (ax, None)" and rest: "\<forall>ax\<in>set ins. \<not> has_parens ax"
    by (simp_all add: not_parens_parse_axis)
  show ?case
  proof (cases "ax = ''...''")
    case True
    from Cons.prems(2) True obtain W1 idx1 where
      el: "ellipsis_loop [0..<nat n] shp W0 idx = Inr (W1, idx1)"
      and w: "walk_input ins shp n h W1 idx1 = Inr W"
      by (auto split: sum.splits)
    from el have el': "ellipsis_loop [0..<nat n] shp W0 (idx + 0) = Inr (W1, idx1)" by simp
    from corr_ellipsis [OF el' Cons.prems(4)]
    have c1: "corr shp W1 (foldl (\<lambda>m j. AList.update (ellipsis_name j) (idx + j) m) am0 [0..<nat n])"
      and i1: "idx1 = idx + nat n" by simp_all
    from Cons.prems(3) True have
      b: "build_ops ins shp n sd ops0
            (foldl (\<lambda>m j. AList.update (ellipsis_name j) (idx + j) m) am0 [0..<nat n]) (idx + nat n)
          = Inr (ops, am)"
      by simp
    from Cons.IH [OF rest w [unfolded i1] b c1] show ?thesis .
  next
    case False
    from Cons.prems(2) False pa have idx: "idx < length shp"
      and w: "walk_input ins shp n h (AList.update ax (shp ! idx) W0) (Suc idx) = Inr W"
      by (auto split: if_splits)
    from Cons.prems(3) False pa have
      b: "build_ops ins shp n sd ops0 (AList.update ax idx am0) (Suc idx) = Inr (ops, am)"
      by (auto split: if_splits)
    from Cons.IH [OF rest w b corr_update [OF Cons.prems(4) idx]] show ?thesis .
  qed
qed

lemma corr_empty: "corr shp [] []"
  by (simp add: corr_def)


subsection \<open>The final shape and the broadcast shape, without composites\<close>

lemma singleton_positions_ok:
  "singleton_positions ins i shp = Inr ps \<Longrightarrow> \<forall>pos\<in>set ps. pos < length shp \<and> shp ! pos = 1"
  by (induction ins arbitrary: i ps) (auto split: if_splits sum.splits)

lemma getitem_Inr: "getitem d k = Inr v \<longleftrightarrow> map_of d k = Some v"
  by (simp add: getitem_def split: option.splits)

lemma ellipsis_out_corr:
  assumes "ellipsis_out is (merge_hints h W) am = Inr (ss, ps)" "corr shp W am"
  shows "ss = map (\<lambda>a. shp ! a) ps \<and> list_all (\<lambda>a. a < length shp) ps"
  using assms
proof (induction "is" arbitrary: ss ps)
  case Nil
  then show ?case by simp
next
  case (Cons i "is")
  from Cons.prems(1) obtain s p ss' ps' where
    s: "map_of (merge_hints h W) (ellipsis_name i) = Some s"
    and p: "map_of am (ellipsis_name i) = Some p"
    and r: "ellipsis_out is (merge_hints h W) am = Inr (ss', ps')"
    and e: "ss = s # ss'" "ps = p # ps'"
    by (auto simp: getitem_Inr split: sum.splits prod.splits)
  from p Cons.prems(2) have "p < length shp" "map_of W (ellipsis_name i) = Some (shp ! p)"
    by (auto simp: corr_def)
  with s have "s = shp ! p" "p < length shp" by (simp_all add: map_of_merge_hints)
  with Cons.IH [OF r Cons.prems(2)] e show ?case by simp
qed

lemma build_final_simple:
  fixes am :: dict and h :: dict
  defines "intro \<equiv> (\<lambda>outs. concat (map (\<lambda>ax. case map_of h ax of None \<Rightarrow> []
                 | Some sz \<Rightarrow> if ax \<noteq> ''...'' \<and> map_of am ax = None then [sz] else []) outs))"
  assumes "\<forall>ax\<in>set outs. \<not> has_parens ax" "corr shp W am"
    and "build_final outs ins shp n (merge_hints h W) am h fs0 perm0 = Inr (fs, perm)"
  shows "\<exists>bs ps. broadcast_shape_of outs n (merge_hints h W) h = Inr bs
           \<and> fs = fs0 @ bs \<and> perm = perm0 @ ps \<and> length ps = length bs
           \<and> prod_list bs = prod_list (map (\<lambda>a. shp ! a) ps) * prod_list (intro outs)
           \<and> (intro outs \<noteq> [] \<longrightarrow>
                (\<exists>sp rest. singleton_positions ins 0 shp = Inr (sp # rest)
                   \<and> length (intro outs) \<le> count_list ps sp))"
  using assms(2-)
proof (induction outs arbitrary: fs0 perm0)
  case Nil
  then show ?case by (simp add: intro_def)
next
  case (Cons ax outs)
  let ?sd = "merge_hints h W"
  from Cons.prems(1) have pa: "parse_axis ax = (ax, None)" and rest: "\<forall>ax\<in>set outs. \<not> has_parens ax"
    by (simp_all add: not_parens_parse_axis)
  note corr = Cons.prems(2)
  have "ax = ''...'' \<or> (ax \<noteq> ''...'' \<and> map_of h ax \<noteq> None \<and> map_of am ax = None)
      \<or> (ax \<noteq> ''...'' \<and> \<not> (map_of h ax \<noteq> None \<and> map_of am ax = None))"
    by (cases "ax = ''...''"; cases "map_of h ax"; cases "map_of am ax") simp_all
  then show ?case
  proof (elim disjE conjE)
    assume ell: "ax = ''...''"
    with Cons.prems(3) pa obtain ss ps1 where
      eo: "ellipsis_out [0..<nat n] ?sd am = Inr (ss, ps1)"
      and bf: "build_final outs ins shp n ?sd am h (fs0 @ ss) (perm0 @ ps1) = Inr (fs, perm)"
      by (auto split: sum.splits prod.splits)
    from ellipsis_out_corr [OF eo corr] have ss: "ss = map (\<lambda>a. shp ! a) ps1" by simp
    from ellipsis_out_getitems [OF eo] have g: "getitems ?sd (map ellipsis_name [0..<nat n]) = Inr ss"
      by simp
    from Cons.IH [OF rest corr bf] obtain bs ps where
      b: "broadcast_shape_of outs n ?sd h = Inr bs" "fs = (fs0 @ ss) @ bs" "perm = (perm0 @ ps1) @ ps"
        "length ps = length bs"
        "prod_list bs = prod_list (map (\<lambda>a. shp ! a) ps) * prod_list (intro outs)"
        "intro outs \<noteq> [] \<longrightarrow> (\<exists>sp rest. singleton_positions ins 0 shp = Inr (sp # rest)
                   \<and> length (intro outs) \<le> count_list ps sp)"
      by blast
    have i: "intro (ax # outs) = intro outs" using ell by (simp add: intro_def split: option.splits)
    have "broadcast_shape_of (ax # outs) n ?sd h = Inr (ss @ bs)"
      using ell g b(1) by simp
    moreover have "fs = fs0 @ (ss @ bs)" "perm = perm0 @ (ps1 @ ps)" using b by simp_all
    moreover have "length (ps1 @ ps) = length (ss @ bs)" using b ss by simp
    moreover have "prod_list (ss @ bs) = prod_list (map (\<lambda>a. shp ! a) (ps1 @ ps)) * prod_list (intro (ax # outs))"
      using b(5) ss i by simp
    moreover have "intro (ax # outs) \<noteq> [] \<longrightarrow> (\<exists>sp rest. singleton_positions ins 0 shp = Inr (sp # rest)
                   \<and> length (intro (ax # outs)) \<le> count_list (ps1 @ ps) sp)"
      using b(6) i by auto
    ultimately show ?thesis by blast
  next
    assume new: "ax \<noteq> ''...''" "map_of h ax \<noteq> None" "map_of am ax = None"
    from new(2) obtain sz where sz: "map_of h ax = Some sz" by blast
    with Cons.prems(3) pa new obtain sp others where
      sp: "singleton_positions ins 0 shp = Inr (sp # others)"
      and bf: "build_final outs ins shp n ?sd am h (fs0 @ [sz]) (perm0 @ [sp]) = Inr (fs, perm)"
      by (auto simp: getitem_def split: sum.splits list.splits)
    from singleton_positions_ok [OF sp] have one: "shp ! sp = 1" by simp
    from new(3) corr have "map_of W ax = None" by (simp add: corr_def)
    with sz have sd: "map_of ?sd ax = Some sz" by (simp add: map_of_merge_hints)
    from Cons.IH [OF rest corr bf] obtain bs ps where
      b: "broadcast_shape_of outs n ?sd h = Inr bs" "fs = (fs0 @ [sz]) @ bs" "perm = (perm0 @ [sp]) @ ps"
        "length ps = length bs"
        "prod_list bs = prod_list (map (\<lambda>a. shp ! a) ps) * prod_list (intro outs)"
        "intro outs \<noteq> [] \<longrightarrow> (\<exists>sp rest. singleton_positions ins 0 shp = Inr (sp # rest)
                   \<and> length (intro outs) \<le> count_list ps sp)"
      by blast
    have i: "intro (ax # outs) = sz # intro outs" using new sz by (simp add: intro_def)
    have "broadcast_shape_of (ax # outs) n ?sd h = Inr (sz # bs)"
      using new(1) pa sd b(1) by simp
    moreover have "fs = fs0 @ (sz # bs)" "perm = perm0 @ (sp # ps)" using b by simp_all
    moreover have "length (sp # ps) = length (sz # bs)" using b by simp
    moreover have "prod_list (sz # bs) = prod_list (map (\<lambda>a. shp ! a) (sp # ps)) * prod_list (intro (ax # outs))"
      using b(5) one i by simp
    moreover have "length (intro (ax # outs)) \<le> count_list (sp # ps) sp"
      using b(6) sp i by (cases "intro outs = []") auto
    ultimately show ?thesis using sp by blast
  next
    assume old: "ax \<noteq> ''...''" "\<not> (map_of h ax \<noteq> None \<and> map_of am ax = None)"
    with Cons.prems(3) pa obtain v pos where
      v: "map_of ?sd ax = Some v" and pos: "map_of am ax = Some pos"
      and bf: "build_final outs ins shp n ?sd am h (fs0 @ [v]) (perm0 @ [pos]) = Inr (fs, perm)"
      by (auto simp: getitem_Inr split: sum.splits if_splits)
    from pos corr have "map_of W ax = Some (shp ! pos)" by (auto simp: corr_def)
    with v have veq: "v = shp ! pos" by (simp add: map_of_merge_hints)
    from Cons.IH [OF rest corr bf] obtain bs ps where
      b: "broadcast_shape_of outs n ?sd h = Inr bs" "fs = (fs0 @ [v]) @ bs" "perm = (perm0 @ [pos]) @ ps"
        "length ps = length bs"
        "prod_list bs = prod_list (map (\<lambda>a. shp ! a) ps) * prod_list (intro outs)"
        "intro outs \<noteq> [] \<longrightarrow> (\<exists>sp rest. singleton_positions ins 0 shp = Inr (sp # rest)
                   \<and> length (intro outs) \<le> count_list ps sp)"
      by blast
    have i: "intro (ax # outs) = intro outs" using old pos by (simp add: intro_def split: option.splits)
    have "broadcast_shape_of (ax # outs) n ?sd h = Inr (v # bs)"
      using old(1) pa v b(1) by simp
    moreover have "fs = fs0 @ (v # bs)" "perm = perm0 @ (pos # ps)" using b by simp_all
    moreover have "length (pos # ps) = length (v # bs)" using b by simp
    moreover have "prod_list (v # bs) = prod_list (map (\<lambda>a. shp ! a) (pos # ps)) * prod_list (intro (ax # outs))"
      using b(5) veq i by simp
    moreover have "intro (ax # outs) \<noteq> [] \<longrightarrow> (\<exists>sp rest. singleton_positions ins 0 shp = Inr (sp # rest)
                   \<and> length (intro (ax # outs)) \<le> count_list (pos # ps) sp)"
      using b(6) i by auto
    ultimately show ?thesis by blast
  qed
qed


subsection \<open>The keys of the axis map\<close>

lemma keys_fold_update:
  "fst ` set (foldl (\<lambda>m j. AList.update (f j) (g j) m) am js) = fst ` set am \<union> f ` set js"
  by (induction js arbitrary: am) (auto simp: dom_update)

lemma keys_fold_enumerate:
  "fst ` set (foldl (\<lambda>m (j, c). AList.update c (idx + j) m) am (enumerate k cs))
     = fst ` set am \<union> set cs"
  by (induction cs arbitrary: am k) (auto simp: dom_update)

lemma build_ops_keys:
  "build_ops ins cs n sd ops0 am0 idx = Inr (ops, am) \<Longrightarrow>
     fst ` set am = fst ` set am0 \<union> set (axis_names ins n)"
proof (induction ins arbitrary: ops0 am0 idx)
  case Nil
  then show ?case by (simp add: axis_names_def)
next
  case (Cons ax ins)
  have names: "set (axis_names (ax # ins) n) =
      set (if ax = ''...'' then map ellipsis_name [0..<nat n]
           else if comps_of (snd (parse_axis ax)) \<noteq> [] then comps_of (snd (parse_axis ax))
           else [fst (parse_axis ax)]) \<union> set (axis_names ins n)"
    by (simp add: axis_names_def)
  show ?case
  proof (cases "ax = ''...''")
    case True
    with Cons.prems have "build_ops ins cs n sd ops0
        (foldl (\<lambda>m j. AList.update (ellipsis_name j) (idx + j) m) am0 [0..<nat n]) (idx + nat n)
        = Inr (ops, am)"
      by simp
    from Cons.IH [OF this] True names show ?thesis
      by (simp add: keys_fold_update Un_assoc)
  next
    case False
    show ?thesis
    proof (cases "comps_of (snd (parse_axis ax)) \<noteq> []")
      case True
      with Cons.prems False obtain split_shape where
        "build_ops ins cs n sd (ops0 @ [(idx, split_shape)])
           (foldl (\<lambda>m (j, comp). AList.update comp (idx + j) m) am0
              (enumerate 0 (comps_of (snd (parse_axis ax)))))
           (idx + length (comps_of (snd (parse_axis ax)))) = Inr (ops, am)"
        by (auto split: sum.splits)
      from Cons.IH [OF this] True False names show ?thesis
        by (simp add: keys_fold_enumerate Un_assoc)
    next
      case c: False
      with Cons.prems False have
        "build_ops ins cs n sd ops0 (AList.update (fst (parse_axis ax)) idx am0) (Suc idx) = Inr (ops, am)"
        by (auto split: if_splits)
      from Cons.IH [OF this] c False names show ?thesis
        by (simp add: dom_update Un_assoc)
    qed
  qed
qed

lemma build_ops_absent:
  "build_ops ins cs n sd [] [] 0 = Inr (ops, am) \<Longrightarrow>
     map_of am k = None \<longleftrightarrow> k \<notin> set (axis_names ins n)"
  using build_ops_keys [of ins cs n sd "[]" "[]" 0 ops am] by (simp add: map_of_eq_None_iff)

subsection \<open>The calls\<close>

lemma ends_with_broadcast_Cons:
  "cs \<noteq> [] \<Longrightarrow> ends_with_broadcast (c # cs) = ends_with_broadcast cs"
  by (cases c; cases cs) simp_all

lemma ends_with_broadcast_snoc:
  "ends_with_broadcast (cs @ [c]) = (\<exists>s. c = BroadcastTo s)"
proof (induction cs)
  case Nil
  show ?case by (cases c) simp_all
next
  case (Cons x cs)
  then show ?case by (simp add: ends_with_broadcast_Cons)
qed

lemma ends_with_broadcast_reshapes:
  "\<forall>c\<in>set cs. \<exists>s. c = Reshape s \<Longrightarrow> \<not> ends_with_broadcast cs"
proof (induction cs rule: rev_induct)
  case Nil
  show ?case by simp
next
  case (snoc c cs)
  then show ?case by (auto simp: ends_with_broadcast_snoc)
qed

subsection \<open>The element count\<close>

lemma compile_parts:
  assumes "compile shp p h = Inr pl" "parser p = Inr (ins, outs)"
  obtains W am where
    "walk_input ins shp (n_ellipsis shp ins) h [] 0 = Inr W"
    "build_ops ins shp (n_ellipsis shp ins) (merge_hints h W) [] [] 0 = Inr (p_ops pl, am)"
    "build_final outs ins shp (n_ellipsis shp ins) (merge_hints h W) am h [] []
       = Inr (p_final_shape pl, p_permutation pl)"
    "p_output_axes pl = outs" "p_n_ellipsis pl = n_ellipsis shp ins"
    "p_shape_dict pl = merge_hints h W"
    "p_simple pl = (\<not> list_ex has_parens ins \<and> \<not> list_ex has_parens outs)"
  using assms
  by (auto simp: compile_def Let_def split: sum.splits prod.splits if_splits)

lemma np_broadcast_to_shape: "np_broadcast_to t s = Inr r \<Longrightarrow> shape r = s"
  by (auto simp: np_broadcast_to_def Let_def split: if_splits)

lemma count_list_distinct: "distinct xs \<Longrightarrow> count_list xs x \<le> 1"
  by (induction xs) (auto simp: count_list_0_iff)

lemma element_count_run:
  assumes run: "rearrange_run t p h = (calls, Inr r)" and p: "parser p = Inr (ins, outs)"
  shows "(\<not> ends_with_broadcast calls \<longrightarrow> prod_list (shape r) = prod_list (shape t))
       \<and> (ends_with_broadcast calls \<longrightarrow>
            length (introduced_sizes outs ins (n_ellipsis (shape t) ins) h) \<le> 1
            \<and> prod_list (shape r) = prod_list (shape t)
                * prod_list (introduced_sizes outs ins (n_ellipsis (shape t) ins) h))"
proof -
  let ?shp = "shape t" and ?n = "n_ellipsis (shape t) ins"
  from run obtain pl where c: "compile ?shp p h = Inr pl" and ex: "execute pl t h = (calls, Inr r)"
    by (cases "compile ?shp p h") (auto simp: rearrange_run_def)
  from compile_parts [OF c p] obtain W am where
    w: "walk_input ins ?shp ?n h [] 0 = Inr W"
    and bo: "build_ops ins ?shp ?n (merge_hints h W) [] [] 0 = Inr (p_ops pl, am)"
    and bf: "build_final outs ins ?shp ?n (merge_hints h W) am h [] []
       = Inr (p_final_shape pl, p_permutation pl)"
    and pl: "p_output_axes pl = outs" "p_n_ellipsis pl = ?n" "p_shape_dict pl = merge_hints h W"
      "p_simple pl = (\<not> list_ex has_parens ins \<and> \<not> list_ex has_parens outs)"
    by blast
  from ex obtain c1 res1 cs1 where
    ao: "apply_ops (p_ops pl) t ?shp [] = (c1, Inr (res1, cs1))"
    by (auto simp: execute_def split: prod.splits sum.splits)
  from apply_ops_result [OF ao] have
    p1: "prod_list (shape res1) = prod_list ?shp"
    and e1: "p_ops pl = [] \<longrightarrow> res1 = t \<and> cs1 = ?shp"
    and r1: "\<forall>c\<in>set c1. \<exists>s. c = Reshape s"
    by auto
  define c2 where "c2 = (if p_permutation pl \<noteq> [] then c1 @ [Transpose (p_permutation pl)] else c1)"
  have nb2: "\<not> ends_with_broadcast c2"
    using r1 by (simp add: c2_def ends_with_broadcast_snoc ends_with_broadcast_reshapes)
  from ex ao obtain res2 where
    tr: "if p_permutation pl \<noteq> [] then np_transpose res1 (p_permutation pl) = Inr res2
         else res2 = res1"
    and fin: "(p_final_shape pl = [] \<and> calls = c2 \<and> r = res2)
       \<or> (p_final_shape pl \<noteq> [] \<and> \<not> (list_ex (\<lambda>s. s = 1) cs1 \<and> p_simple pl)
            \<and> calls = c2 @ [Reshape (p_final_shape pl)]
            \<and> np_reshape res2 (p_final_shape pl) = Inr r)
       \<or> (p_final_shape pl \<noteq> [] \<and> list_ex (\<lambda>s. s = 1) cs1 \<and> p_simple pl
            \<and> (\<exists>bs. broadcast_shape_of (p_output_axes pl) (p_n_ellipsis pl) (p_shape_dict pl) h = Inr bs
                  \<and> calls = c2 @ [BroadcastTo bs] \<and> np_broadcast_to res2 bs = Inr r))"
    by (auto simp: execute_def c2_def split: prod.splits sum.splits if_splits)
  from tr have p2: "prod_list (shape res2) = prod_list ?shp"
    using p1 by (auto dest: np_transpose_prod split: if_splits)
  from fin show ?thesis
  proof (elim disjE conjE exE)
    assume "calls = c2" "r = res2"
    with nb2 p2 show ?thesis by simp
  next
    assume calls: "calls = c2 @ [Reshape (p_final_shape pl)]"
      and rs: "np_reshape res2 (p_final_shape pl) = Inr r"
    from np_reshape_shape [OF rs] have "prod_list (shape r) = prod_list (shape res2)"
      by (rule conjunct2)
    with p2 calls show ?thesis
      by (simp add: ends_with_broadcast_snoc)
  next
    fix bs
    assume fs: "p_final_shape pl \<noteq> []" and simple: "p_simple pl"
      and bs: "broadcast_shape_of (p_output_axes pl) (p_n_ellipsis pl) (p_shape_dict pl) h = Inr bs"
      and calls: "calls = c2 @ [BroadcastTo bs]" and br: "np_broadcast_to res2 bs = Inr r"
    from simple pl(4) have ni: "\<forall>ax\<in>set ins. \<not> has_parens ax" and no: "\<forall>ax\<in>set outs. \<not> has_parens ax"
      by (simp_all add: list_ex_iff)
    from walk_build_corr [OF ni w bo corr_empty] have corr: "corr ?shp W am" and ops: "p_ops pl = []"
      by simp_all
    from build_final_simple [OF no corr bf] bs pl obtain ps where
      fsbs: "p_final_shape pl = bs" and perm: "p_permutation pl = ps" and len: "length ps = length bs"
      and prod: "prod_list bs = prod_list (map (\<lambda>a. ?shp ! a) ps)
          * prod_list (concat (map (\<lambda>ax. case map_of h ax of None \<Rightarrow> []
                 | Some sz \<Rightarrow> if ax \<noteq> ''...'' \<and> map_of am ax = None then [sz] else []) outs))"
      and cnt: "concat (map (\<lambda>ax. case map_of h ax of None \<Rightarrow> []
                 | Some sz \<Rightarrow> if ax \<noteq> ''...'' \<and> map_of am ax = None then [sz] else []) outs) \<noteq> [] \<longrightarrow>
                (\<exists>sp rest. singleton_positions ins 0 ?shp = Inr (sp # rest)
                   \<and> length (concat (map (\<lambda>ax. case map_of h ax of None \<Rightarrow> []
                 | Some sz \<Rightarrow> if ax \<noteq> ''...'' \<and> map_of am ax = None then [sz] else []) outs)) \<le> count_list ps sp)"
      by auto
    have intro: "concat (map (\<lambda>ax. case map_of h ax of None \<Rightarrow> []
                 | Some sz \<Rightarrow> if ax \<noteq> ''...'' \<and> map_of am ax = None then [sz] else []) outs)
          = introduced_sizes outs ins ?n h"
      by (simp add: introduced_sizes_def build_ops_absent [OF bo] cong: option.case_cong)
    from fs fsbs len perm have "p_permutation pl \<noteq> []" by auto
    with tr ops e1 have tp: "np_transpose t ps = Inr res2" by (simp add: perm)
    from np_transpose_shape [OF tp] have s2: "shape res2 = map (\<lambda>a. ?shp ! a) ps"
      and d: "distinct ps" by simp_all
    from p2 s2 prod intro have "prod_list bs = prod_list ?shp * prod_list (introduced_sizes outs ins ?n h)"
      by simp
    moreover from cnt intro count_list_distinct [OF d]
    have "length (introduced_sizes outs ins ?n h) \<le> 1"
      by (cases "introduced_sizes outs ins ?n h = []") (auto intro: order_trans)
    ultimately show ?thesis using calls np_broadcast_to_shape [OF br]
      by (simp add: ends_with_broadcast_snoc)
  qed
qed


text \<open>
  C4. For every call of \<^verbatim>\<open>rearrange\<close> that returns an array: when the last call to the
  array library is not \<^verbatim>\<open>np.broadcast_to\<close>, the product of the returned shape is the
  product of the input shape. When it is \<^verbatim>\<open>np.broadcast_to\<close>, the output introduces at most
  one new axis (a hinted output name that is not an input axis) and the product of the
  returned shape is the product of the input shape times the size of the introduced axis
  (times 1 when there is none).
\<close>

theorem element_count_invariance:
  assumes "result_shape (rearrange t p h) = Inr s" and "parser p = Inr (ins, outs)"
  shows "(\<not> ends_with_broadcast (fst (rearrange_run t p h))
            \<longrightarrow> prod_list s = prod_list (shape t))
       \<and> (ends_with_broadcast (fst (rearrange_run t p h)) \<longrightarrow>
            length (introduced_sizes outs ins (n_ellipsis (shape t) ins) h) \<le> 1
            \<and> prod_list s = prod_list (shape t)
                * prod_list (introduced_sizes outs ins (n_ellipsis (shape t) ins) h))"
proof -
  from assms(1) obtain r where r: "rearrange t p h = Inr r" and s: "shape r = s"
    by (cases "rearrange t p h") (auto simp: result_shape_def)
  from r have "rearrange_run t p h = (fst (rearrange_run t p h), Inr r)"
    by (simp add: rearrange_def prod_eq_iff)
  from element_count_run [OF this assms(2)] s show ?thesis
    by simp
qed

theorem element_count_invariance_witness:
  "result_shape (rearrange (index_tensor [3, 1, 5]) ''a 1 c -> a b c'' [(''b'', 4)]) = Inr [3, 4, 5]
   \<and> parser ''a 1 c -> a b c'' = Inr ([''a'', ''1'', ''c''], [''a'', ''b'', ''c''])
   \<and> ends_with_broadcast (fst (rearrange_run (index_tensor [3, 1, 5]) ''a 1 c -> a b c'' [(''b'', 4)]))
   \<and> introduced_sizes [''a'', ''b'', ''c''] [''a'', ''1'', ''c'']
         (n_ellipsis (shape (index_tensor [3, 1, 5])) [''a'', ''1'', ''c'']) [(''b'', 4)] = [4]
   \<and> prod_list [3, 4, 5] = prod_list (shape (index_tensor [3, 1, 5])) * prod_list [4 :: nat]
   \<and> result_shape (rearrange (index_tensor [3, 4, 5]) ''a b c -> (a b) c'' []) = Inr [12, 5]
   \<and> parser ''a b c -> (a b) c'' = Inr ([''a'', ''b'', ''c''], [''(a b)'', ''c''])
   \<and> \<not> ends_with_broadcast (fst (rearrange_run (index_tensor [3, 4, 5]) ''a b c -> (a b) c'' []))
   \<and> prod_list [12, 5 :: nat] = prod_list (shape (index_tensor [3, 4, 5]))"
proof -
  have r1: "result_shape (rearrange (index_tensor [3, 1, 5]) ''a 1 c -> a b c'' [(''b'', 4)])
      = Inr [3, 4, 5]"
    by code_simp
  have p1: "parser ''a 1 c -> a b c'' = Inr ([''a'', ''1'', ''c''], [''a'', ''b'', ''c''])"
    by code_simp
  have b1: "ends_with_broadcast
      (fst (rearrange_run (index_tensor [3, 1, 5]) ''a 1 c -> a b c'' [(''b'', 4)]))"
    by code_simp
  have i1: "introduced_sizes [''a'', ''b'', ''c''] [''a'', ''1'', ''c'']
         (n_ellipsis (shape (index_tensor [3, 1, 5])) [''a'', ''1'', ''c'']) [(''b'', 4)] = [4]"
    by code_simp
  have r2: "result_shape (rearrange (index_tensor [3, 4, 5]) ''a b c -> (a b) c'' []) = Inr [12, 5]"
    by code_simp
  have p2: "parser ''a b c -> (a b) c'' = Inr ([''a'', ''b'', ''c''], [''(a b)'', ''c''])"
    by code_simp
  have b2: "\<not> ends_with_broadcast
      (fst (rearrange_run (index_tensor [3, 4, 5]) ''a b c -> (a b) c'' []))"
    by code_simp
  from element_count_invariance [OF r1 p1] b1 i1
  have 1: "prod_list [3, 4, 5] = prod_list (shape (index_tensor [3, 1, 5])) * prod_list [4 :: nat]"
    by simp
  from element_count_invariance [OF r2 p2] b2
  have 2: "prod_list [12, 5 :: nat] = prod_list (shape (index_tensor [3, 4, 5]))"
    by simp
  from r1 p1 b1 i1 r2 p2 b2 1 2 show ?thesis
    by simp
qed

end
